theory Spec2Isabelle
  imports Complex_Main
begin

section \<open>Data model (shared/types.ts, shared/constants.ts)\<close>

text \<open>
  The three record interfaces of the extension. Field names carry a prefix, since the
  three interfaces share the names \<open>id\<close>, \<open>extractedAt\<close>, \<open>owner\<close>, \<open>title\<close>, \<open>type\<close> and
  \<open>sourceUrl\<close>. \<open>extractedAt\<close> is always a value of \<open>Date.now()\<close>, an integer count of
  milliseconds.
\<close>

record ACContact =
  c_id :: string
  c_name :: string
  c_email :: string
  c_phone :: string
  c_tags :: "string list"
  c_owner :: string
  c_extractedAt :: int
  c_sourceUrl :: string

record ACDeal =
  d_id :: string
  d_title :: string
  d_value :: real
  d_currency :: string
  d_pipeline :: string
  d_stage :: string
  d_primaryContact :: string
  d_owner :: string
  d_extractedAt :: int
  d_sourceUrl :: string

datatype TaskType = Call | Email | Meeting | Todo

datatype LinkedEntityType = LinkedContact | LinkedDeal

record LinkedEntity =
  l_type :: LinkedEntityType
  l_id :: string
  l_name :: string

record ACTask =
  t_id :: string
  t_type :: TaskType
  t_title :: string
  t_dueDate :: string
  t_assignee :: string
  t_linkedEntity :: "LinkedEntity option"
  t_extractedAt :: int
  t_sourceUrl :: string

text \<open>\<open>type EntityType = 'contacts' | 'deals' | 'tasks'\<close> and
  \<open>type EntityRecord = ACContact | ACDeal | ACTask\<close> of the storage service.\<close>

datatype EntityType = Contacts | Deals | Tasks

datatype EntityRecord = Contact ACContact | Deal ACDeal | Task ACTask

fun record_id :: "EntityRecord \<Rightarrow> string" where
  "record_id (Contact c) = c_id c"
| "record_id (Deal d) = d_id d"
| "record_id (Task t) = t_id t"

fun extractedAt :: "EntityRecord \<Rightarrow> int" where
  "extractedAt (Contact c) = c_extractedAt c"
| "extractedAt (Deal d) = d_extractedAt d"
| "extractedAt (Task t) = t_extractedAt t"

text \<open>
  The persisted document. The storage service reads a collection as
  \<open>payload[entityType] as T[]\<close> (or \<open>as EntityRecord[]\<close>) and writes it back under the same
  key, so at run time every collection is a list of \<open>EntityRecord\<close>; the model keeps it
  at that type.
\<close>

record ACStorageSchema =
  contacts :: "EntityRecord list"
  deals :: "EntityRecord list"
  tasks :: "EntityRecord list"
  lastSync :: int
  syncInProgress :: bool

record 'a StorageOperationResult =
  success :: bool
  payload :: "'a option"
  errorMessage :: "string option"

datatype storage_key = CRM_DATA | SYNC_LOCK | USER_PREFERENCES

definition RETRY_ATTEMPTS :: nat where
  "RETRY_ATTEMPTS = 3"

definition RETRY_DELAY_MS :: nat where
  "RETRY_DELAY_MS = 1000"

definition lockTimeout :: int where
  "lockTimeout = 30000"

definition DEFAULT_STORAGE_STATE :: ACStorageSchema where
  "DEFAULT_STORAGE_STATE =
     \<lparr>contacts = [], deals = [], tasks = [], lastSync = 0, syncInProgress = False\<rparr>"

fun collection :: "EntityType \<Rightarrow> ACStorageSchema \<Rightarrow> EntityRecord list" where
  "collection Contacts d = contacts d"
| "collection Deals d = deals d"
| "collection Tasks d = tasks d"

fun set_collection :: "EntityType \<Rightarrow> EntityRecord list \<Rightarrow> ACStorageSchema \<Rightarrow> ACStorageSchema" where
  "set_collection Contacts rs d = d\<lparr>contacts := rs\<rparr>"
| "set_collection Deals rs d = d\<lparr>deals := rs\<rparr>"
| "set_collection Tasks rs d = d\<lparr>tasks := rs\<rparr>"

section \<open>The JavaScript \<open>Map\<close> used by the deduplication engine\<close>

text \<open>
  A \<open>Map<string, T>\<close> iterates in insertion order. \<open>set\<close> on a key that is present
  replaces the value and keeps the key's position; on a new key it appends the entry.
\<close>

type_synonym 'v js_map = "(string \<times> 'v) list"

fun Map_set :: "string \<Rightarrow> 'v \<Rightarrow> 'v js_map \<Rightarrow> 'v js_map" where
  "Map_set k v [] = [(k, v)]"
| "Map_set k v ((k', v') # m) = (if k' = k then (k, v) # m else (k', v') # Map_set k v m)"

definition Map_get :: "'v js_map \<Rightarrow> string \<Rightarrow> 'v option" where
  "Map_get m k = map_of m k"

definition Map_values :: "'v js_map \<Rightarrow> 'v list" where
  "Map_values m = map snd m"

section \<open>Deduplication engine (performDeduplication)\<close>

text \<open>Body of the first loop: \<open>recordMap.set(record.id, record)\<close>.\<close>

definition seed_step :: "EntityRecord \<Rightarrow> EntityRecord js_map \<Rightarrow> EntityRecord js_map" where
  "seed_step record recordMap = Map_set (record_id record) record recordMap"

text \<open>Body of the second loop. A stored record is an object, so \<open>!existingRecord\<close> holds
  exactly when the key is absent.\<close>

definition merge_step :: "EntityRecord \<Rightarrow> EntityRecord js_map \<Rightarrow> EntityRecord js_map" where
  "merge_step newRecord recordMap =
     (case Map_get recordMap (record_id newRecord) of
        None \<Rightarrow> Map_set (record_id newRecord) newRecord recordMap
      | Some existingRecord \<Rightarrow>
          if extractedAt newRecord > extractedAt existingRecord
          then Map_set (record_id newRecord) newRecord recordMap
          else recordMap)"

definition performDeduplication :: "EntityRecord list \<Rightarrow> EntityRecord list \<Rightarrow> EntityRecord list" where
  "performDeduplication existingRecords newRecords =
     Map_values (fold merge_step newRecords (fold seed_step existingRecords []))"

section \<open>The store, the clock and store failures\<close>

text \<open>
  \<open>chrome.storage.local\<close> holds the document under \<open>CRM_DATA\<close> and the lock timestamp under
  \<open>SYNC_LOCK\<close>. A call to it may reject: \<open>faults\<close> is the script of outcomes of the coming
  store calls, one entry per call (\<open>None\<close>: the call succeeds; an exhausted script: every
  further call succeeds). Every store call is traced and uses up one entry of the script
  (\<open>store_call\<close>). A rejecting call leaves the store as it is. A rejection is an
  \<open>Error\<close> with a message or some other thrown value. \<open>clock\<close> is what \<open>Date.now()\<close>
  returns; \<open>delayExecution\<close> advances it. \<open>log\<close> is a trace of the calls made, in order:
  store calls, sleeps, and one marker per call of \<open>acquireSyncLock\<close>.
\<close>

datatype exn = Error string | NonError

datatype event =
    StorageGet storage_key
  | StorageSet storage_key
  | StorageRemove storage_key
  | Sleep nat
  | AcquireCalled

record world =
  crm_data :: "ACStorageSchema option"
  sync_lock :: "int option"
  clock :: int
  faults :: "exn option list"
  log :: "event list"

definition emit :: "event \<Rightarrow> world \<Rightarrow> world" where
  "emit e w = w\<lparr>log := log w @ [e]\<rparr>"

definition next_fault :: "world \<Rightarrow> exn option" where
  "next_fault w = (case faults w of [] \<Rightarrow> None | f # fs \<Rightarrow> f)"

definition store_call :: "event \<Rightarrow> world \<Rightarrow> world" where
  "store_call e w = (emit e w)\<lparr>faults := tl (faults w)\<rparr>"

text \<open>\<open>error instanceof Error ? error.message : fallback\<close>\<close>

fun message_of :: "string \<Rightarrow> exn \<Rightarrow> string" where
  "message_of fallback (Error m) = m"
| "message_of fallback NonError = fallback"

definition storage_get_crm :: "world \<Rightarrow> (exn + ACStorageSchema option) \<times> world" where
  "storage_get_crm w =
     (case next_fault w of
        Some e \<Rightarrow> (Inl e, store_call (StorageGet CRM_DATA) w)
      | None \<Rightarrow> (Inr (crm_data w), store_call (StorageGet CRM_DATA) w))"

definition storage_set_crm :: "ACStorageSchema \<Rightarrow> world \<Rightarrow> (exn + unit) \<times> world" where
  "storage_set_crm d w =
     (case next_fault w of
        Some e \<Rightarrow> (Inl e, store_call (StorageSet CRM_DATA) w)
      | None \<Rightarrow> (Inr (), (store_call (StorageSet CRM_DATA) w)\<lparr>crm_data := Some d\<rparr>))"

definition storage_get_lock :: "world \<Rightarrow> (exn + int option) \<times> world" where
  "storage_get_lock w =
     (case next_fault w of
        Some e \<Rightarrow> (Inl e, store_call (StorageGet SYNC_LOCK) w)
      | None \<Rightarrow> (Inr (sync_lock w), store_call (StorageGet SYNC_LOCK) w))"

definition storage_set_lock :: "int \<Rightarrow> world \<Rightarrow> (exn + unit) \<times> world" where
  "storage_set_lock t w =
     (case next_fault w of
        Some e \<Rightarrow> (Inl e, store_call (StorageSet SYNC_LOCK) w)
      | None \<Rightarrow> (Inr (), (store_call (StorageSet SYNC_LOCK) w)\<lparr>sync_lock := Some t\<rparr>))"

definition storage_remove_lock :: "world \<Rightarrow> (exn + unit) \<times> world" where
  "storage_remove_lock w =
     (case next_fault w of
        Some e \<Rightarrow> (Inl e, store_call (StorageRemove SYNC_LOCK) w)
      | None \<Rightarrow> (Inr (), (store_call (StorageRemove SYNC_LOCK) w)\<lparr>sync_lock := None\<rparr>))"

definition delayExecution :: "nat \<Rightarrow> world \<Rightarrow> world" where
  "delayExecution milliseconds w = (emit (Sleep milliseconds) w)\<lparr>clock := clock w + int milliseconds\<rparr>"

section \<open>Storage service (CRMStorageOrchestrator)\<close>

definition failure :: "string \<Rightarrow> 'a StorageOperationResult" where
  "failure msg = \<lparr>success = False, payload = None, errorMessage = Some msg\<rparr>"

definition retrieveAllData :: "world \<Rightarrow> ACStorageSchema StorageOperationResult \<times> world" where
  "retrieveAllData w =
     (case storage_get_crm w of
        (Inr storedData, w') \<Rightarrow>
          (\<lparr>success = True,
            payload = Some (case storedData of None \<Rightarrow> DEFAULT_STORAGE_STATE | Some d \<Rightarrow> d),
            errorMessage = None\<rparr>, w')
      | (Inl error, w') \<Rightarrow>
          (failure (message_of ''Failed to retrieve storage data'' error), w'))"

definition persistData :: "ACStorageSchema \<Rightarrow> world \<Rightarrow> unit StorageOperationResult \<times> world" where
  "persistData updatedData w =
     (case storage_set_crm updatedData w of
        (Inr _, w') \<Rightarrow> (\<lparr>success = True, payload = None, errorMessage = None\<rparr>, w')
      | (Inl error, w') \<Rightarrow> (failure (message_of ''Failed to persist data'' error), w'))"

text \<open>
  \<open>existingLock && (currentTime - existingLock) < this.lockTimeout\<close>: the number
  \<open>existingLock\<close> is truthy when it is present and not \<open>0\<close>. The result of the closing
  \<open>persistData\<close> is dropped, as in the source.
\<close>

definition lock_blocks :: "int option \<Rightarrow> int \<Rightarrow> bool" where
  "lock_blocks existingLock currentTime =
     (case existingLock of
        None \<Rightarrow> False
      | Some l \<Rightarrow> l \<noteq> 0 \<and> currentTime - l < lockTimeout)"

definition acquireSyncLock :: "world \<Rightarrow> bool \<times> world" where
  "acquireSyncLock w0 =
     (case retrieveAllData (emit AcquireCalled w0) of (currentData, w1) \<Rightarrow>
        (case (success currentData, payload currentData) of
           (True, Some doc) \<Rightarrow>
             (case storage_get_lock w1 of
                (Inl error, w2) \<Rightarrow> (False, w2)
              | (Inr existingLock, w2) \<Rightarrow>
                  let currentTime = clock w2 in
                  if lock_blocks existingLock currentTime then (False, w2)
                  else
                    (case storage_set_lock currentTime w2 of
                       (Inl error, w3) \<Rightarrow> (False, w3)
                     | (Inr _, w3) \<Rightarrow>
                         (True, snd (persistData (doc\<lparr>syncInProgress := True\<rparr>) w3))))
         | _ \<Rightarrow> (False, w1)))"

text \<open>A rejected \<open>remove\<close> ends the release at the \<open>catch\<close>, which only logs a warning.\<close>

definition releaseSyncLock :: "world \<Rightarrow> world" where
  "releaseSyncLock w =
     (case storage_remove_lock w of
        (Inl error, w1) \<Rightarrow> w1
      | (Inr _, w1) \<Rightarrow>
          (case retrieveAllData w1 of (currentData, w2) \<Rightarrow>
             (case (success currentData, payload currentData) of
                (True, Some doc) \<Rightarrow> snd (persistData (doc\<lparr>syncInProgress := False\<rparr>) w2)
              | _ \<Rightarrow> w2)))"

text \<open>
  One pass of the \<open>while\<close> loop of \<open>insertRecordsWithDeduplication\<close>, from the state
  \<open>attemptCount\<close>. Every call inside the \<open>try\<close> block converts a store rejection into a
  result or a boolean, and the deduplication of a well-typed document does not throw, so
  the \<open>catch\<close> handler of the loop is never entered and has no branch here.
\<close>

function insertLoop ::
  "EntityType \<Rightarrow> EntityRecord list \<Rightarrow> nat \<Rightarrow> world \<Rightarrow> int StorageOperationResult \<times> world" where
  "insertLoop entityType newRecords attemptCount w =
     (if attemptCount < RETRY_ATTEMPTS then
        (case acquireSyncLock w of (lockAcquired, w1) \<Rightarrow>
           if \<not> lockAcquired
           then insertLoop entityType newRecords (attemptCount + 1) (delayExecution RETRY_DELAY_MS w1)
           else
             (case retrieveAllData w1 of (currentData, w2) \<Rightarrow>
                (case (success currentData, payload currentData) of
                   (True, Some doc) \<Rightarrow>
                     let existingRecords = collection entityType doc;
                         deduplicatedRecords = performDeduplication existingRecords newRecords;
                         updatedData = (set_collection entityType deduplicatedRecords doc)\<lparr>lastSync := clock w2\<rparr>
                     in (case persistData updatedData w2 of (persistResult, w3) \<Rightarrow>
                           let w4 = releaseSyncLock w3 in
                           if \<not> success persistResult
                           then (\<lparr>success = False, payload = None,
                                  errorMessage = errorMessage persistResult\<rparr>, w4)
                           else
                             let insertedCount = int (length deduplicatedRecords) - int (length existingRecords)
                             in (\<lparr>success = True, payload = Some (max 0 insertedCount),
                                  errorMessage = None\<rparr>, w4))
                 | _ \<Rightarrow>
                     (failure ''Failed to retrieve current data for deduplication'',
                      releaseSyncLock w2))))
      else (failure ''Failed to acquire sync lock after maximum retries'', w))"
  by pat_completeness auto
termination
  by (relation "measure (\<lambda>(entityType, newRecords, attemptCount, w). RETRY_ATTEMPTS - attemptCount)") auto

declare insertLoop.simps [simp del]

definition insertRecordsWithDeduplication ::
  "EntityType \<Rightarrow> EntityRecord list \<Rightarrow> world \<Rightarrow> int StorageOperationResult \<times> world" where
  "insertRecordsWithDeduplication entityType newRecords w = insertLoop entityType newRecords 0 w"

text \<open>
  \<open>removeRecord\<close> and \<open>clearAllRecords\<close> take no lock. In \<open>removeRecord\<close> the calls inside
  the \<open>try\<close> block return results and do not throw, so its \<open>catch\<close> handler has no branch
  here; the \<open>catch\<close> of \<open>clearAllRecords\<close> is the rejected store write.
\<close>

definition removeRecord :: "EntityType \<Rightarrow> string \<Rightarrow> world \<Rightarrow> unit StorageOperationResult \<times> world" where
  "removeRecord entityType recordId w =
     (case retrieveAllData w of (currentData, w1) \<Rightarrow>
        (case (success currentData, payload currentData) of
           (True, Some doc) \<Rightarrow>
             let existingRecords = collection entityType doc;
                 filteredRecords = filter (\<lambda>record. record_id record \<noteq> recordId) existingRecords
             in if length filteredRecords = length existingRecords
                then (failure ''Record not found'', w1)
                else persistData (set_collection entityType filteredRecords doc) w1
         | _ \<Rightarrow> (failure ''Failed to retrieve current data'', w1)))"

definition clearAllRecords :: "world \<Rightarrow> unit StorageOperationResult \<times> world" where
  "clearAllRecords w =
     (case storage_set_crm DEFAULT_STORAGE_STATE w of
        (Inr _, w') \<Rightarrow> (\<lparr>success = True, payload = None, errorMessage = None\<rparr>, w')
      | (Inl error, w') \<Rightarrow> (failure (message_of ''Clear operation failed'' error), w'))"

section \<open>Notions used to state the properties\<close>

text \<open>
  \<open>recordMap_of\<close> is the \<open>recordMap\<close> of \<open>performDeduplication\<close> after both loops;
  \<open>keyed\<close> says that a map has each key once and files every record under its own id;
  \<open>covered m x\<close> says that \<open>m\<close> holds, under the id of \<open>x\<close>, a record at least as recent
  as \<open>x\<close>; \<open>pick\<close> is the effect of one pass of the second loop on the entry of the
  record's id; \<open>id_map\<close> is the id-to-record mapping of a collection; \<open>mkContact\<close>
  builds the contacts of the worked examples.
\<close>

definition keyed :: "EntityRecord js_map \<Rightarrow> bool" where
  "keyed m = (distinct (map fst m) \<and> (\<forall>(k, v) \<in> set m. record_id v = k))"

definition recordMap_of :: "EntityRecord list \<Rightarrow> EntityRecord list \<Rightarrow> EntityRecord js_map" where
  "recordMap_of existingRecords newRecords = fold merge_step newRecords (fold seed_step existingRecords [])"

definition covered :: "EntityRecord js_map \<Rightarrow> EntityRecord \<Rightarrow> bool" where
  "covered m x = (\<exists>r. map_of m (record_id x) = Some r \<and> extractedAt x \<le> extractedAt r)"

definition pick :: "EntityRecord \<Rightarrow> EntityRecord option \<Rightarrow> EntityRecord option" where
  "pick n cur =
     (case cur of None \<Rightarrow> Some n
      | Some e \<Rightarrow> if extractedAt n > extractedAt e then Some n else Some e)"

definition id_map :: "EntityRecord list \<Rightarrow> string \<Rightarrow> EntityRecord option" where
  "id_map rs = map_of (map (\<lambda>r. (record_id r, r)) rs)"

definition mkContact :: "string \<Rightarrow> int \<Rightarrow> string \<Rightarrow> EntityRecord" where
  "mkContact i t n =
     Contact \<lparr>c_id = i, c_name = n, c_email = [], c_phone = [], c_tags = [], c_owner = [],
              c_extractedAt = t, c_sourceUrl = []\<rparr>"

text \<open>
  Notions about the store: \<open>current_doc\<close> is the document a successful read hands to the
  service (the stored one, or the default when none is stored); \<open>doc_unique\<close> is the
  uniqueness invariant of the data model; \<open>fault_at n w\<close> is the outcome of the \<open>n\<close>-th
  coming store call (\<open>None\<close>: it succeeds); \<open>lock_held\<close> says that a lock timestamp is
  present whose age is below the timeout; \<open>attempt_world k w\<close> is the state in which
  \<open>insertRecordsWithDeduplication\<close>, started in \<open>w\<close>, makes its next attempt after \<open>k\<close>
  attempts that did not get the lock; \<open>acquire_count\<close> counts the calls of
  \<open>acquireSyncLock\<close> in a trace and \<open>sleeps\<close> lists the delays in it; \<open>schedule\<close> keeps
  of a trace the calls of \<open>acquireSyncLock\<close> and the delays, in their order; \<open>run_ops\<close> runs
  a sequence of mutations; \<open>critical_section\<close> is the part of the loop body of
  \<open>insertRecordsWithDeduplication\<close> that runs once the lock is acquired.
\<close>

definition current_doc :: "world \<Rightarrow> ACStorageSchema" where
  "current_doc w = (case crm_data w of None \<Rightarrow> DEFAULT_STORAGE_STATE | Some d \<Rightarrow> d)"

definition doc_unique :: "ACStorageSchema \<Rightarrow> bool" where
  "doc_unique d =
     (distinct (map record_id (contacts d)) \<and> distinct (map record_id (deals d))
      \<and> distinct (map record_id (tasks d)))"

definition fault_at :: "nat \<Rightarrow> world \<Rightarrow> exn option" where
  "fault_at n w = (case drop n (faults w) of [] \<Rightarrow> None | f # fs \<Rightarrow> f)"

definition lock_held :: "world \<Rightarrow> bool" where
  "lock_held w = (case sync_lock w of None \<Rightarrow> False | Some l \<Rightarrow> clock w - l < lockTimeout)"


definition acquire_count :: "event list \<Rightarrow> nat" where
  "acquire_count evs = length (filter (\<lambda>e. e = AcquireCalled) evs)"

fun sleeps :: "event list \<Rightarrow> nat list" where
  "sleeps [] = []"
| "sleeps (Sleep ms # evs) = ms # sleeps evs"
| "sleeps (e # evs) = sleeps evs"

fun schedule :: "event list \<Rightarrow> event list" where
  "schedule [] = []"
| "schedule (AcquireCalled # evs) = AcquireCalled # schedule evs"
| "schedule (Sleep ms # evs) = Sleep ms # schedule evs"
| "schedule (e # evs) = schedule evs"

datatype operation =
    Insert EntityType "EntityRecord list"
  | Remove EntityType string
  | Clear

fun run_op :: "operation \<Rightarrow> world \<Rightarrow> world" where
  "run_op (Insert entityType newRecords) w =
     snd (insertRecordsWithDeduplication entityType newRecords w)"
| "run_op (Remove entityType recordId) w = snd (removeRecord entityType recordId w)"
| "run_op Clear w = snd (clearAllRecords w)"

definition run_ops :: "operation list \<Rightarrow> world \<Rightarrow> world" where
  "run_ops ops w = fold run_op ops w"

definition critical_section ::
  "EntityType \<Rightarrow> EntityRecord list \<Rightarrow> world \<Rightarrow> int StorageOperationResult \<times> world" where
  "critical_section entityType newRecords w1 =
     (case retrieveAllData w1 of (currentData, w2) \<Rightarrow>
        (case (success currentData, payload currentData) of
           (True, Some doc) \<Rightarrow>
             let existingRecords = collection entityType doc;
                 deduplicatedRecords = performDeduplication existingRecords newRecords;
                 updatedData = (set_collection entityType deduplicatedRecords doc)\<lparr>lastSync := clock w2\<rparr>
             in (case persistData updatedData w2 of (persistResult, w3) \<Rightarrow>
                   let w4 = releaseSyncLock w3 in
                   if \<not> success persistResult
                   then (\<lparr>success = False, payload = None,
                          errorMessage = errorMessage persistResult\<rparr>, w4)
                   else
                     let insertedCount = int (length deduplicatedRecords) - int (length existingRecords)
                     in (\<lparr>success = True, payload = Some (max 0 insertedCount),
                          errorMessage = None\<rparr>, w4))
         | _ \<Rightarrow>
             (failure ''Failed to retrieve current data for deduplication'',
              releaseSyncLock w2)))"

section \<open>The \<open>Map\<close> and the two loops of the deduplication\<close>

lemma map_of_Map_set: "map_of (Map_set k v m) = (map_of m)(k \<mapsto> v)"
  by (induction m) (auto simp: fun_eq_iff)

lemma keys_Map_set:
  "map fst (Map_set k v m) = (if k \<in> fst ` set m then map fst m else map fst m @ [k])"
  by (induction m) (auto simp: rev_image_eqI)

lemma Map_set_fresh: "k \<notin> fst ` set m \<Longrightarrow> Map_set k v m = m @ [(k, v)]"
  by (induction m) auto

lemma set_Map_set_subset: "set (Map_set k v m) \<subseteq> insert (k, v) (set m)"
  by (induction m) (auto split: if_splits)

lemma keyed_Nil: "keyed []"
  by (simp add: keyed_def)

lemma keyed_Map_set: "keyed m \<Longrightarrow> record_id v = k \<Longrightarrow> keyed (Map_set k v m)"
  using set_Map_set_subset [of k v m]
  by (auto simp: keyed_def keys_Map_set)

lemma keyed_seed_step: "keyed m \<Longrightarrow> keyed (seed_step r m)"
  by (simp add: seed_step_def keyed_Map_set)

lemma keyed_merge_step: "keyed m \<Longrightarrow> keyed (merge_step r m)"
  by (simp add: merge_step_def keyed_Map_set split: option.splits)

lemma keyed_fold_seed: "keyed m \<Longrightarrow> keyed (fold seed_step rs m)"
  by (induction rs arbitrary: m) (simp_all add: keyed_seed_step)

lemma keyed_fold_merge: "keyed m \<Longrightarrow> keyed (fold merge_step rs m)"
  by (induction rs arbitrary: m) (simp_all add: keyed_merge_step)

lemma keyed_recordMap_of: "keyed (recordMap_of E N)"
  by (simp add: recordMap_of_def keyed_fold_merge keyed_fold_seed keyed_Nil)

lemma performDeduplication_values: "performDeduplication E N = map snd (recordMap_of E N)"
  by (simp add: performDeduplication_def recordMap_of_def Map_values_def)

lemma keyed_ids: "keyed m \<Longrightarrow> map record_id (map snd m) = map fst m"
  by (induction m) (auto simp: keyed_def)

lemma keyed_pairs: "keyed m \<Longrightarrow> map (\<lambda>r. (record_id r, r)) (map snd m) = m"
  by (induction m) (auto simp: keyed_def)

lemma dedup_distinct_ids: "distinct (map record_id (performDeduplication E N))"
proof -
  have "map record_id (performDeduplication E N) = map fst (recordMap_of E N)"
    unfolding performDeduplication_values by (rule keyed_ids [OF keyed_recordMap_of])
  moreover have "distinct (map fst (recordMap_of E N))"
    using keyed_recordMap_of [of E N] by (simp add: keyed_def)
  ultimately show ?thesis by simp
qed

lemma keyset_Map_set: "fst ` set (Map_set k v m) = insert k (fst ` set m)"
proof -
  have "set (map fst (Map_set k v m)) = insert k (set (map fst m))"
    unfolding keys_Map_set by auto
  then show ?thesis by simp
qed

lemma keys_seed_step: "fst ` set (seed_step r m) = insert (record_id r) (fst ` set m)"
  by (simp add: seed_step_def keyset_Map_set)

lemma keys_merge_step: "fst ` set (merge_step r m) = insert (record_id r) (fst ` set m)"
proof (cases "map_of m (record_id r)")
  case None
  then show ?thesis by (simp add: merge_step_def Map_get_def keyset_Map_set)
next
  case (Some e)
  then have "record_id r \<in> dom (map_of m)" by blast
  then have "record_id r \<in> fst ` set m" by (simp add: dom_map_of_conv_image_fst)
  with Some show ?thesis
    by (auto simp: merge_step_def Map_get_def keyset_Map_set)
qed

lemma keys_fold_seed: "fst ` set (fold seed_step rs m) = fst ` set m \<union> record_id ` set rs"
  by (induction rs arbitrary: m) (auto simp: keys_seed_step)

lemma keys_fold_merge: "fst ` set (fold merge_step rs m) = fst ` set m \<union> record_id ` set rs"
  by (induction rs arbitrary: m) (auto simp: keys_merge_step)

lemma dedup_ids: "record_id ` set (performDeduplication E N) = record_id ` set E \<union> record_id ` set N"
proof -
  have "record_id ` set (performDeduplication E N) = set (map record_id (map snd (recordMap_of E N)))"
    by (simp add: performDeduplication_values image_image)
  also have "\<dots> = fst ` set (recordMap_of E N)"
    unfolding keyed_ids [OF keyed_recordMap_of] by simp
  also have "\<dots> = record_id ` set E \<union> record_id ` set N"
    by (simp add: recordMap_of_def keys_fold_merge keys_fold_seed)
  finally show ?thesis .
qed

lemma dedup_length: "length (performDeduplication E N) = card (record_id ` set E \<union> record_id ` set N)"
  using distinct_card [OF dedup_distinct_ids [of E N]] dedup_ids [of E N]
  by simp

lemma fold_seed_fresh:
  "distinct (map record_id rs) \<Longrightarrow> record_id ` set rs \<inter> fst ` set m = {} \<Longrightarrow>
   fold seed_step rs m = m @ map (\<lambda>r. (record_id r, r)) rs"
proof (induction rs arbitrary: m)
  case Nil
  then show ?case by simp
next
  case (Cons r rs)
  have fresh: "record_id r \<notin> fst ` set m" using Cons.prems(2) by auto
  have step: "seed_step r m = m @ [(record_id r, r)]"
    by (simp add: seed_step_def Map_set_fresh [OF fresh])
  have "record_id ` set rs \<inter> fst ` set (m @ [(record_id r, r)]) = {}"
    using Cons.prems by auto
  with Cons.IH [of "m @ [(record_id r, r)]"] Cons.prems(1) step show ?case by simp
qed

lemma fold_merge_fresh:
  "distinct (map record_id rs) \<Longrightarrow> record_id ` set rs \<inter> fst ` set m = {} \<Longrightarrow>
   fold merge_step rs m = m @ map (\<lambda>r. (record_id r, r)) rs"
proof (induction rs arbitrary: m)
  case Nil
  then show ?case by simp
next
  case (Cons r rs)
  have fresh: "record_id r \<notin> fst ` set m" using Cons.prems(2) by auto
  then have "map_of m (record_id r) = None" by (simp add: map_of_eq_None_iff)
  then have step: "merge_step r m = m @ [(record_id r, r)]"
    by (simp add: merge_step_def Map_get_def Map_set_fresh [OF fresh])
  have "record_id ` set rs \<inter> fst ` set (m @ [(record_id r, r)]) = {}"
    using Cons.prems by auto
  with Cons.IH [of "m @ [(record_id r, r)]"] Cons.prems(1) step show ?case by simp
qed

lemma dedup_empty_batch: "distinct (map record_id E) \<Longrightarrow> performDeduplication E [] = E"
  by (simp add: performDeduplication_def Map_values_def fold_seed_fresh comp_def)

lemma dedup_into_empty: "distinct (map record_id N) \<Longrightarrow> performDeduplication [] N = N"
  by (simp add: performDeduplication_def Map_values_def fold_merge_fresh comp_def)

lemma merge_step_covered_same: "covered (merge_step x m) x"
  by (auto simp: covered_def merge_step_def Map_get_def map_of_Map_set split: option.splits)

lemma merge_step_covered_mono: "covered m x \<Longrightarrow> covered (merge_step y m) x"
  by (auto simp: covered_def merge_step_def Map_get_def map_of_Map_set split: option.splits)

lemma fold_merge_covered_mono: "covered m x \<Longrightarrow> covered (fold merge_step rs m) x"
  by (induction rs arbitrary: m) (simp_all add: merge_step_covered_mono)

lemma fold_merge_covered: "x \<in> set rs \<Longrightarrow> covered (fold merge_step rs m) x"
  by (induction rs arbitrary: m)
     (auto simp: merge_step_covered_same fold_merge_covered_mono)

lemma merge_step_covered_id: "covered m x \<Longrightarrow> merge_step x m = m"
  by (auto simp: covered_def merge_step_def Map_get_def)

lemma fold_merge_covered_id: "\<forall>x \<in> set rs. covered m x \<Longrightarrow> fold merge_step rs m = m"
  by (induction rs) (simp_all add: merge_step_covered_id)

lemma fold_seed_keyed: "keyed m \<Longrightarrow> fold seed_step (map snd m) [] = m"
proof -
  assume k: "keyed m"
  then have "distinct (map fst m)" by (simp add: keyed_def)
  then have "distinct (map record_id (map snd m))"
    unfolding keyed_ids [OF k] .
  then have "fold seed_step (map snd m) [] = [] @ map (\<lambda>r. (record_id r, r)) (map snd m)"
    by (intro fold_seed_fresh) simp_all
  with keyed_pairs [OF k] show ?thesis by simp
qed

lemma map_of_merge_step:
  "map_of (merge_step n m) i = (if record_id n = i then pick n (map_of m i) else map_of m i)"
  by (auto simp: merge_step_def Map_get_def pick_def map_of_Map_set split: option.splits)

lemma map_of_fold_merge:
  "map_of (fold merge_step N m) i = fold pick (filter (\<lambda>r. record_id r = i) N) (map_of m i)"
  by (induction N arbitrary: m) (simp_all add: map_of_merge_step)

lemma map_of_seed_step:
  "map_of (seed_step r m) i = (if record_id r = i then Some r else map_of m i)"
  by (simp add: seed_step_def map_of_Map_set)

lemma map_of_fold_seed:
  "map_of (fold seed_step E m) i =
     (if filter (\<lambda>r. record_id r = i) E = [] then map_of m i
      else Some (last (filter (\<lambda>r. record_id r = i) E)))"
  by (induction E arbitrary: m) (simp_all add: map_of_seed_step)

lemma keyed_filter:
  "keyed m \<Longrightarrow>
   filter (\<lambda>r. record_id r = i) (map snd m) = (case map_of m i of None \<Rightarrow> [] | Some x \<Rightarrow> [x])"
proof (induction m)
  case Nil
  then show ?case by simp
next
  case (Cons p m)
  obtain k v where p: "p = (k, v)" by (cases p)
  from Cons.prems p have kv: "record_id v = k" and fresh: "k \<notin> fst ` set m" and km: "keyed m"
    by (auto simp: keyed_def)
  show ?case
  proof (cases "k = i")
    case True
    with fresh have "map_of m i = None" by (simp add: map_of_eq_None_iff)
    with Cons.IH [OF km] True p kv show ?thesis by simp
  next
    case False
    with Cons.IH [OF km] p kv show ?thesis by simp
  qed
qed

lemma dedup_filter:
  "filter (\<lambda>r. record_id r = i) (performDeduplication E N) =
     (case map_of (recordMap_of E N) i of None \<Rightarrow> [] | Some x \<Rightarrow> [x])"
  unfolding performDeduplication_values by (rule keyed_filter [OF keyed_recordMap_of])

lemma map_of_recordMap_of:
  "map_of (recordMap_of E N) i =
     fold pick (filter (\<lambda>r. record_id r = i) N)
       (if filter (\<lambda>r. record_id r = i) E = [] then None
        else Some (last (filter (\<lambda>r. record_id r = i) E)))"
  by (simp add: recordMap_of_def map_of_fold_merge map_of_fold_seed)

lemma recency_single:
  assumes "filter (\<lambda>r. record_id r = i) E = [e]" and "filter (\<lambda>r. record_id r = i) N = [n]"
  shows "filter (\<lambda>r. record_id r = i) (performDeduplication E N)
         = [if extractedAt n > extractedAt e then n else e]"
  using assms by (simp add: dedup_filter map_of_recordMap_of pick_def)

lemma keyed_pairs_of: "distinct (map record_id rs) \<Longrightarrow> keyed (map (\<lambda>r. (record_id r, r)) rs)"
  by (simp add: keyed_def comp_def)

lemma id_map_dedup: "id_map (performDeduplication E N) = map_of (recordMap_of E N)"
  unfolding id_map_def performDeduplication_values keyed_pairs [OF keyed_recordMap_of] ..

lemma filter_id_map:
  assumes "distinct (map record_id rs)"
  shows "filter (\<lambda>r. record_id r = i) rs = (case id_map rs i of None \<Rightarrow> [] | Some x \<Rightarrow> [x])"
  using keyed_filter [OF keyed_pairs_of [OF assms], of i]
  by (simp add: id_map_def comp_def)

lemma id_map_merge:
  assumes E: "distinct (map record_id E)" and N: "distinct (map record_id N)"
  shows "id_map (performDeduplication E N) i =
           (case id_map N i of None \<Rightarrow> id_map E i | Some n \<Rightarrow> pick n (id_map E i))"
proof -
  have "fold seed_step E [] = map (\<lambda>r. (record_id r, r)) E"
    using fold_seed_fresh [OF E, of "[]"] by simp
  then have "map_of (recordMap_of E N) i = fold pick (filter (\<lambda>r. record_id r = i) N) (id_map E i)"
    by (simp add: recordMap_of_def map_of_fold_merge id_map_def)
  then show ?thesis
    by (simp add: id_map_dedup filter_id_map [OF N] split: option.splits)
qed

lemma mem_id_map:
  "distinct (map record_id rs) \<Longrightarrow> r \<in> set rs \<longleftrightarrow> id_map rs (record_id r) = Some r"
proof -
  assume d: "distinct (map record_id rs)"
  then have "distinct (map fst (map (\<lambda>r. (record_id r, r)) rs))" by (simp add: comp_def)
  then have "id_map rs (record_id r) = Some r \<longleftrightarrow> (record_id r, r) \<in> set (map (\<lambda>r. (record_id r, r)) rs)"
    unfolding id_map_def by (rule map_of_eq_Some_iff)
  then show ?thesis by auto
qed

lemma set_eq_of_id_map:
  assumes "distinct (map record_id xs)" "distinct (map record_id ys)" "id_map xs = id_map ys"
  shows "set xs = set ys"
  using assms by (auto simp: mem_id_map)

lemma merge_assoc_map:
  assumes A: "distinct (map record_id A)" and B: "distinct (map record_id B)"
      and C: "distinct (map record_id C)"
  shows "id_map (performDeduplication (performDeduplication A B) C)
       = id_map (performDeduplication A (performDeduplication B C))"
proof
  fix i
  have L: "id_map (performDeduplication (performDeduplication A B) C) i
      = (case id_map C i of None \<Rightarrow> id_map (performDeduplication A B) i
         | Some c \<Rightarrow> pick c (id_map (performDeduplication A B) i))"
    by (rule id_map_merge [OF dedup_distinct_ids C])
  have R: "id_map (performDeduplication A (performDeduplication B C)) i
      = (case id_map (performDeduplication B C) i of None \<Rightarrow> id_map A i
         | Some x \<Rightarrow> pick x (id_map A i))"
    by (rule id_map_merge [OF A dedup_distinct_ids])
  note AB = id_map_merge [OF A B, of i] and BC = id_map_merge [OF B C, of i]
  show "id_map (performDeduplication (performDeduplication A B) C) i
      = id_map (performDeduplication A (performDeduplication B C)) i"
    unfolding L R AB BC
    by (cases "id_map A i"; cases "id_map B i"; cases "id_map C i") (simp_all add: pick_def)
qed

lemma merge_comm_map:
  assumes A: "distinct (map record_id A)" and B: "distinct (map record_id B)"
      and noties: "\<forall>a \<in> set A. \<forall>b \<in> set B. record_id a = record_id b \<longrightarrow> extractedAt a \<noteq> extractedAt b \<or> a = b"
  shows "id_map (performDeduplication A B) = id_map (performDeduplication B A)"
proof
  fix i
  show "id_map (performDeduplication A B) i = id_map (performDeduplication B A) i"
  proof (cases "id_map A i")
    case None
    then show ?thesis
      by (simp add: id_map_merge [OF A B] id_map_merge [OF B A] pick_def split: option.splits)
  next
    case (Some a)
    note a = this
    show ?thesis
    proof (cases "id_map B i")
      case None
      with a show ?thesis
        by (simp add: id_map_merge [OF A B] id_map_merge [OF B A] pick_def split: option.splits)
    next
      case (Some b)
      from a have "id_map A i = Some a" .
      have ida: "record_id a = i \<and> a \<in> set A"
        using a unfolding id_map_def by (auto dest!: map_of_SomeD)
      have idb: "record_id b = i \<and> b \<in> set B"
        using Some unfolding id_map_def by (auto dest!: map_of_SomeD)
      have ne: "extractedAt a \<noteq> extractedAt b \<or> a = b"
        using noties [rule_format, of a b] ida idb by simp
      have L: "id_map (performDeduplication A B) i = pick b (Some a)"
        using a Some by (simp add: id_map_merge [OF A B])
      have R: "id_map (performDeduplication B A) i = pick a (Some b)"
        using a Some by (simp add: id_map_merge [OF B A])
      show ?thesis
      proof (cases "a = b")
        case True
        then show ?thesis unfolding L R by (simp add: pick_def)
      next
        case False
        with ne have "extractedAt a \<noteq> extractedAt b" by simp
        then show ?thesis unfolding L R by (simp add: pick_def)
      qed
    qed
  qed
qed

section \<open>The store calls and the service, call by call\<close>

lemma fault_at_0: "next_fault w = fault_at 0 w"
  by (simp add: next_fault_def fault_at_def)

lemma store_call_fields [simp]:
  "crm_data (store_call e w) = crm_data w"
  "sync_lock (store_call e w) = sync_lock w"
  "clock (store_call e w) = clock w"
  "log (store_call e w) = log w @ [e]"
  "faults (store_call e w) = tl (faults w)"
  by (simp_all add: store_call_def emit_def)

lemma fault_at_store_call [simp]: "fault_at n (store_call e w) = fault_at (Suc n) w"
  by (simp add: fault_at_def drop_Suc)

lemma fault_at_upd [simp]:
  "fault_at n (w\<lparr>crm_data := d\<rparr>) = fault_at n w"
  "fault_at n (w\<lparr>sync_lock := l\<rparr>) = fault_at n w"
  "fault_at n (w\<lparr>clock := c\<rparr>) = fault_at n w"
  "fault_at n (w\<lparr>log := es\<rparr>) = fault_at n w"
  by (simp_all add: fault_at_def)

lemma current_doc_upd [simp]:
  "current_doc (w\<lparr>crm_data := Some d\<rparr>) = d"
  "current_doc (w\<lparr>sync_lock := l\<rparr>) = current_doc w"
  "current_doc (w\<lparr>clock := c\<rparr>) = current_doc w"
  "current_doc (w\<lparr>log := es\<rparr>) = current_doc w"
  "current_doc (w\<lparr>faults := fs\<rparr>) = current_doc w"
  "current_doc (store_call e w) = current_doc w"
  by (simp_all add: current_doc_def)

lemma retrieveAllData_eq:
  "retrieveAllData w =
     (case fault_at 0 w of
        None \<Rightarrow> (\<lparr>success = True, payload = Some (current_doc w), errorMessage = None\<rparr>,
                 store_call (StorageGet CRM_DATA) w)
      | Some e \<Rightarrow> (failure (message_of ''Failed to retrieve storage data'' e),
                   store_call (StorageGet CRM_DATA) w))"
  by (simp add: retrieveAllData_def storage_get_crm_def fault_at_0 current_doc_def
      split: option.splits)

lemma persistData_eq:
  "persistData d w =
     (case fault_at 0 w of
        None \<Rightarrow> (\<lparr>success = True, payload = None, errorMessage = None\<rparr>,
                 (store_call (StorageSet CRM_DATA) w)\<lparr>crm_data := Some d\<rparr>)
      | Some e \<Rightarrow> (failure (message_of ''Failed to persist data'' e),
                   store_call (StorageSet CRM_DATA) w))"
  by (simp add: persistData_def storage_set_crm_def fault_at_0 split: option.splits)

lemma failure_fields [simp]:
  "success (failure m) = False" "payload (failure m) = None" "errorMessage (failure m) = Some m"
  by (simp_all add: failure_def)

lemma emit_fields [simp]:
  "crm_data (emit e w) = crm_data w"
  "sync_lock (emit e w) = sync_lock w"
  "clock (emit e w) = clock w"
  "log (emit e w) = log w @ [e]"
  "faults (emit e w) = faults w"
  "fault_at n (emit e w) = fault_at n w"
  "current_doc (emit e w) = current_doc w"
  by (simp_all add: emit_def current_doc_def)

lemma storage_get_lock_eq:
  "storage_get_lock w =
     (case fault_at 0 w of
        None \<Rightarrow> (Inr (sync_lock w), store_call (StorageGet SYNC_LOCK) w)
      | Some e \<Rightarrow> (Inl e, store_call (StorageGet SYNC_LOCK) w))"
  by (simp add: storage_get_lock_def fault_at_0 split: option.splits)

lemma storage_set_lock_eq:
  "storage_set_lock t w =
     (case fault_at 0 w of
        None \<Rightarrow> (Inr (), (store_call (StorageSet SYNC_LOCK) w)\<lparr>sync_lock := Some t\<rparr>)
      | Some e \<Rightarrow> (Inl e, store_call (StorageSet SYNC_LOCK) w))"
  by (simp add: storage_set_lock_def fault_at_0 split: option.splits)

lemma storage_remove_lock_eq:
  "storage_remove_lock w =
     (case fault_at 0 w of
        None \<Rightarrow> (Inr (), (store_call (StorageRemove SYNC_LOCK) w)\<lparr>sync_lock := None\<rparr>)
      | Some e \<Rightarrow> (Inl e, store_call (StorageRemove SYNC_LOCK) w))"
  by (simp add: storage_remove_lock_def fault_at_0 split: option.splits)

lemma acquireSyncLock_eq:
  "acquireSyncLock w =
     (let w1 = store_call (StorageGet CRM_DATA) (emit AcquireCalled w);
          w2 = store_call (StorageGet SYNC_LOCK) w1;
          w3 = store_call (StorageSet SYNC_LOCK) w2;
          w4 = store_call (StorageSet CRM_DATA) (w3\<lparr>sync_lock := Some (clock w)\<rparr>)
      in if fault_at 0 w \<noteq> None then (False, w1)
         else if fault_at 1 w \<noteq> None then (False, w2)
         else if lock_blocks (sync_lock w) (clock w) then (False, w2)
         else if fault_at 2 w \<noteq> None then (False, w3)
         else if fault_at 3 w \<noteq> None then (True, w4)
         else (True, w4\<lparr>crm_data := Some ((current_doc w)\<lparr>syncInProgress := True\<rparr>)\<rparr>))"
proof (cases "fault_at 0 w")
  case (Some e)
  then show ?thesis by (simp add: acquireSyncLock_def retrieveAllData_eq Let_def)
next
  case f0: None
  show ?thesis
  proof (cases "fault_at 1 w")
    case (Some e)
    with f0 show ?thesis
      by (simp add: acquireSyncLock_def retrieveAllData_eq storage_get_lock_eq Let_def)
  next
    case f1: None
    show ?thesis
    proof (cases "lock_blocks (sync_lock w) (clock w)")
      case True
      with f0 f1 show ?thesis
        by (simp add: acquireSyncLock_def retrieveAllData_eq storage_get_lock_eq Let_def)
    next
      case nb: False
      show ?thesis
      proof (cases "fault_at 2 w")
        case (Some e)
        with f0 f1 nb show ?thesis
          by (simp add: acquireSyncLock_def retrieveAllData_eq storage_get_lock_eq
              storage_set_lock_eq Let_def numeral_2_eq_2)
      next
        case f2: None
        with f0 f1 nb show ?thesis
          by (cases "fault_at 3 w")
             (simp_all add: acquireSyncLock_def retrieveAllData_eq storage_get_lock_eq
              storage_set_lock_eq persistData_eq Let_def numeral_2_eq_2 numeral_3_eq_3)
      qed
    qed
  qed
qed

lemma insertLoop_unfold:
  "insertLoop entityType newRecords attemptCount w =
     (if attemptCount < RETRY_ATTEMPTS then
        (case acquireSyncLock w of (lockAcquired, w1) \<Rightarrow>
           if \<not> lockAcquired
           then insertLoop entityType newRecords (attemptCount + 1) (delayExecution RETRY_DELAY_MS w1)
           else critical_section entityType newRecords w1)
      else (failure ''Failed to acquire sync lock after maximum retries'', w))"
  unfolding critical_section_def by (rule insertLoop.simps)

lemma releaseSyncLock_eq:
  "releaseSyncLock w =
     (let w1 = store_call (StorageRemove SYNC_LOCK) w;
          w2 = store_call (StorageGet CRM_DATA) (w1\<lparr>sync_lock := None\<rparr>);
          w3 = store_call (StorageSet CRM_DATA) w2
      in if fault_at 0 w \<noteq> None then w1
         else if fault_at 1 w \<noteq> None then w2
         else if fault_at 2 w \<noteq> None then w3
         else w3\<lparr>crm_data := Some ((current_doc w)\<lparr>syncInProgress := False\<rparr>)\<rparr>)"
proof (cases "fault_at 0 w")
  case (Some e)
  then show ?thesis by (simp add: releaseSyncLock_def storage_remove_lock_eq Let_def)
next
  case f0: None
  show ?thesis
  proof (cases "fault_at 1 w")
    case (Some e)
    with f0 show ?thesis
      by (simp add: releaseSyncLock_def storage_remove_lock_eq retrieveAllData_eq Let_def)
  next
    case f1: None
    with f0 show ?thesis
      by (cases "fault_at 2 w")
         (simp_all add: releaseSyncLock_def storage_remove_lock_eq retrieveAllData_eq
            persistData_eq Let_def numeral_2_eq_2)
  qed
qed

lemma critical_section_eq:
  "critical_section entityType newRecords w1 =
     (let doc = current_doc w1;
          existingRecords = collection entityType doc;
          deduplicatedRecords = performDeduplication existingRecords newRecords;
          updatedData = (set_collection entityType deduplicatedRecords doc)\<lparr>lastSync := clock w1\<rparr>;
          w2 = store_call (StorageGet CRM_DATA) w1;
          w3 = store_call (StorageSet CRM_DATA) w2
      in case fault_at 0 w1 of
           Some e \<Rightarrow> (failure ''Failed to retrieve current data for deduplication'',
                       releaseSyncLock w2)
         | None \<Rightarrow>
            (case fault_at 1 w1 of
               Some e \<Rightarrow> (failure (message_of ''Failed to persist data'' e), releaseSyncLock w3)
             | None \<Rightarrow>
                 (\<lparr>success = True,
                   payload = Some (max 0 (int (length deduplicatedRecords) - int (length existingRecords))),
                   errorMessage = None\<rparr>,
                  releaseSyncLock (w3\<lparr>crm_data := Some updatedData\<rparr>))))"
proof (cases "fault_at 0 w1")
  case (Some e)
  then show ?thesis by (simp add: critical_section_def retrieveAllData_eq Let_def)
next
  case f0: None
  then show ?thesis
    by (cases "fault_at 1 w1")
       (simp_all add: critical_section_def retrieveAllData_eq persistData_eq Let_def failure_def)
qed

lemma collection_upd [simp]:
  "collection et (d\<lparr>syncInProgress := b\<rparr>) = collection et d"
  "collection et (d\<lparr>lastSync := t\<rparr>) = collection et d"
  by (cases et; simp)+

lemma collection_set_collection [simp]:
  "collection et (set_collection et rs d) = rs"
  by (cases et) simp_all

lemma doc_unique_upd [simp]:
  "doc_unique (d\<lparr>syncInProgress := b\<rparr>) = doc_unique d"
  "doc_unique (d\<lparr>lastSync := t\<rparr>) = doc_unique d"
  by (simp_all add: doc_unique_def)

lemma doc_unique_set_collection:
  "doc_unique d \<Longrightarrow> distinct (map record_id rs) \<Longrightarrow> doc_unique (set_collection et rs d)"
  by (cases et) (simp_all add: doc_unique_def)

lemma doc_unique_collection: "doc_unique d \<Longrightarrow> distinct (map record_id (collection et d))"
  by (cases et) (simp_all add: doc_unique_def)

lemma doc_unique_default: "doc_unique DEFAULT_STORAGE_STATE"
  by (simp add: doc_unique_def DEFAULT_STORAGE_STATE_def)

lemma acquire_count_simps [simp]:
  "acquire_count [] = 0"
  "acquire_count (e # evs) = (if e = AcquireCalled then 1 else 0) + acquire_count evs"
  "acquire_count (xs @ ys) = acquire_count xs + acquire_count ys"
  by (simp_all add: acquire_count_def)

lemma sleeps_append [simp]: "sleeps (xs @ ys) = sleeps xs @ sleeps ys"
  by (induction xs rule: sleeps.induct) simp_all

lemma release_collection [simp]:
  "collection et (current_doc (releaseSyncLock w)) = collection et (current_doc w)"
  by (simp add: releaseSyncLock_eq Let_def)

lemma release_unique [simp]:
  "doc_unique (current_doc (releaseSyncLock w)) = doc_unique (current_doc w)"
  by (simp add: releaseSyncLock_eq Let_def)

lemma release_log:
  "\<exists>evs. log (releaseSyncLock w) = log w @ evs \<and> acquire_count evs = 0 \<and> sleeps evs = []"
  by (simp add: releaseSyncLock_eq Let_def)

lemma acquire_collection [simp]:
  "collection et (current_doc (snd (acquireSyncLock w))) = collection et (current_doc w)"
  by (simp add: acquireSyncLock_eq Let_def)

lemma acquire_unique [simp]:
  "doc_unique (current_doc (snd (acquireSyncLock w))) = doc_unique (current_doc w)"
  by (simp add: acquireSyncLock_eq Let_def)

lemma acquire_clock [simp]: "clock (snd (acquireSyncLock w)) = clock w"
  by (simp add: acquireSyncLock_eq Let_def)


lemma acquire_log:
  "\<exists>evs. log (snd (acquireSyncLock w)) = log w @ evs \<and> acquire_count evs = 1 \<and> sleeps evs = []
     \<and> (\<not> fst (acquireSyncLock w) \<longrightarrow> StorageSet CRM_DATA \<notin> set evs)"
  by (simp add: acquireSyncLock_eq Let_def)

lemma delay_fields [simp]:
  "crm_data (delayExecution ms w) = crm_data w"
  "sync_lock (delayExecution ms w) = sync_lock w"
  "clock (delayExecution ms w) = clock w + int ms"
  "log (delayExecution ms w) = log w @ [Sleep ms]"
  "faults (delayExecution ms w) = faults w"
  "current_doc (delayExecution ms w) = current_doc w"
  by (simp_all add: delayExecution_def current_doc_def)

lemma critical_section_unique:
  "doc_unique (current_doc w) \<Longrightarrow> doc_unique (current_doc (snd (critical_section et new w)))"
  by (simp add: critical_section_eq Let_def doc_unique_set_collection dedup_distinct_ids
      split: option.splits)

lemma critical_section_payload:
  "success (fst (critical_section et new w)) \<Longrightarrow>
   payload (fst (critical_section et new w)) =
     Some (max 0 (int (length (performDeduplication (collection et (current_doc w)) new))
                  - int (length (collection et (current_doc w)))))"
  by (simp add: critical_section_eq Let_def split: option.splits)

lemma critical_section_log:
  "\<exists>evs. log (snd (critical_section et new w)) = log w @ evs \<and> acquire_count evs = 0 \<and> sleeps evs = []"
proof -
  have rel: "\<And>v. \<exists>evs. log (releaseSyncLock v) = log v @ evs \<and> acquire_count evs = 0 \<and> sleeps evs = []"
    by (rule release_log)
  show ?thesis
  proof (cases "fault_at 0 w")
    case (Some e)
    from rel [of "store_call (StorageGet CRM_DATA) w"] Some show ?thesis
      by (auto simp: critical_section_eq Let_def)
  next
    case f0: None
    show ?thesis
    proof (cases "fault_at 1 w")
      case (Some e)
      from rel [of "store_call (StorageSet CRM_DATA) (store_call (StorageGet CRM_DATA) w)"] f0 Some
      show ?thesis by (auto simp: critical_section_eq Let_def)
    next
      case None
      let ?d = "(set_collection et (performDeduplication (collection et (current_doc w)) new) (current_doc w))\<lparr>lastSync := clock w\<rparr>"
      from rel [of "(store_call (StorageSet CRM_DATA) (store_call (StorageGet CRM_DATA) w))\<lparr>crm_data := Some ?d\<rparr>"] f0 None
      show ?thesis by (auto simp: critical_section_eq Let_def)
    qed
  qed
qed

lemma loop_unique:
  "doc_unique (current_doc w) \<Longrightarrow> doc_unique (current_doc (snd (insertLoop et new n w)))"
proof (induction "RETRY_ATTEMPTS - n" arbitrary: n w)
  case 0
  then show ?case by (simp add: insertLoop_unfold [of et new n w])
next
  case (Suc k)
  then have lt: "n < RETRY_ATTEMPTS" by simp
  show ?case
  proof (cases "fst (acquireSyncLock w)")
    case True
    with lt Suc.prems show ?thesis
      by (simp add: insertLoop_unfold [of et new n w] split_beta critical_section_unique)
  next
    case False
    have "doc_unique (current_doc (snd (insertLoop et new (n + 1)
            (delayExecution RETRY_DELAY_MS (snd (acquireSyncLock w))))))"
      using Suc.hyps(2) Suc.prems by (intro Suc.hyps(1)) simp_all
    with lt False show ?thesis
      by (simp add: insertLoop_unfold [of et new n w] split_beta)
  qed
qed

lemma loop_payload:
  "success (fst (insertLoop et new n w)) \<Longrightarrow>
   payload (fst (insertLoop et new n w)) =
     Some (max 0 (int (length (performDeduplication (collection et (current_doc w)) new))
                  - int (length (collection et (current_doc w)))))"
proof (induction "RETRY_ATTEMPTS - n" arbitrary: n w)
  case 0
  then show ?case by (simp add: insertLoop_unfold [of et new n w])
next
  case (Suc k)
  then have lt: "n < RETRY_ATTEMPTS" by simp
  show ?case
  proof (cases "fst (acquireSyncLock w)")
    case True
    with lt Suc.prems have "success (fst (critical_section et new (snd (acquireSyncLock w))))"
      by (simp add: insertLoop_unfold [of et new n w] split_beta)
    from critical_section_payload [OF this] lt True show ?thesis
      by (simp add: insertLoop_unfold [of et new n w] split_beta)
  next
    case False
    let ?w' = "delayExecution RETRY_DELAY_MS (snd (acquireSyncLock w))"
    from lt False Suc.prems have "success (fst (insertLoop et new (n + 1) ?w'))"
      by (simp add: insertLoop_unfold [of et new n w] split_beta)
    moreover have "k = RETRY_ATTEMPTS - (n + 1)" using Suc.hyps(2) by simp
    ultimately have "payload (fst (insertLoop et new (n + 1) ?w')) =
       Some (max 0 (int (length (performDeduplication (collection et (current_doc ?w')) new))
                  - int (length (collection et (current_doc ?w')))))"
      by (rule Suc.hyps(1) [rotated])
    with lt False show ?thesis
      by (simp add: insertLoop_unfold [of et new n w] split_beta)
  qed
qed

lemma loop_log:
  "\<exists>evs. log (snd (insertLoop et new n w)) = log w @ evs
         \<and> acquire_count evs \<le> RETRY_ATTEMPTS - n
         \<and> set (sleeps evs) \<subseteq> {RETRY_DELAY_MS}"
proof (induction "RETRY_ATTEMPTS - n" arbitrary: n w)
  case 0
  then show ?case by (simp add: insertLoop_unfold [of et new n w])
next
  case (Suc k)
  then have lt: "n < RETRY_ATTEMPTS" by simp
  obtain e1 where e1: "log (snd (acquireSyncLock w)) = log w @ e1" "acquire_count e1 = 1" "sleeps e1 = []"
    using acquire_log [of w] by blast
  show ?case
  proof (cases "fst (acquireSyncLock w)")
    case True
    obtain e2 where e2: "log (snd (critical_section et new (snd (acquireSyncLock w))))
        = log (snd (acquireSyncLock w)) @ e2" "acquire_count e2 = 0" "sleeps e2 = []"
      using critical_section_log [of et new "snd (acquireSyncLock w)"] by blast
    have "log (snd (insertLoop et new n w)) = log w @ (e1 @ e2)"
      using lt True e1 e2 by (simp add: insertLoop_unfold [of et new n w] split_beta)
    moreover have "acquire_count (e1 @ e2) \<le> RETRY_ATTEMPTS - n" using e1 e2 lt by simp
    moreover have "set (sleeps (e1 @ e2)) \<subseteq> {RETRY_DELAY_MS}" using e1 e2 by simp
    ultimately show ?thesis by blast
  next
    case False
    let ?w' = "delayExecution RETRY_DELAY_MS (snd (acquireSyncLock w))"
    have "k = RETRY_ATTEMPTS - (n + 1)" using Suc.hyps(2) by simp
    from Suc.hyps(1) [OF this, of ?w']
    obtain e3 where e3: "log (snd (insertLoop et new (n + 1) ?w')) = log ?w' @ e3"
        "acquire_count e3 \<le> RETRY_ATTEMPTS - (n + 1)" "set (sleeps e3) \<subseteq> {RETRY_DELAY_MS}"
      by blast
    have "log (snd (insertLoop et new n w)) = log w @ (e1 @ Sleep RETRY_DELAY_MS # e3)"
      using lt False e1 e3 by (simp add: insertLoop_unfold [of et new n w] split_beta)
    moreover have "acquire_count (e1 @ Sleep RETRY_DELAY_MS # e3) \<le> RETRY_ATTEMPTS - n"
      using e1 e3 lt by simp
    moreover have "set (sleeps (e1 @ Sleep RETRY_DELAY_MS # e3)) \<subseteq> {RETRY_DELAY_MS}"
      using e1 e3 by simp
    ultimately show ?thesis by blast
  qed
qed





lemma length_filter_eq_iff: "length (filter P xs) = length xs \<longleftrightarrow> (\<forall>x \<in> set xs. P x)"
proof (induction xs)
  case Nil
  then show ?case by simp
next
  case (Cons x xs)
  have "length (filter P xs) \<noteq> Suc (length xs)"
    using length_filter_le [of P xs] by linarith
  with Cons show ?case by simp
qed

lemma removeRecord_eq:
  "removeRecord et rid w =
     (let w1 = store_call (StorageGet CRM_DATA) w;
          existingRecords = collection et (current_doc w);
          filteredRecords = filter (\<lambda>record. record_id record \<noteq> rid) existingRecords
      in case fault_at 0 w of
           Some e \<Rightarrow> (failure ''Failed to retrieve current data'', w1)
         | None \<Rightarrow>
             if rid \<notin> record_id ` set existingRecords then (failure ''Record not found'', w1)
             else persistData (set_collection et filteredRecords (current_doc w)) w1)"
proof -
  have "length (filter (\<lambda>record. record_id record \<noteq> rid) (collection et (current_doc w)))
          = length (collection et (current_doc w))
        \<longleftrightarrow> rid \<notin> record_id ` set (collection et (current_doc w))"
    unfolding length_filter_eq_iff by auto
  then show ?thesis
    by (cases "fault_at 0 w") (simp_all add: removeRecord_def retrieveAllData_eq Let_def)
qed

lemma clearAllRecords_eq:
  "clearAllRecords w =
     (case fault_at 0 w of
        None \<Rightarrow> (\<lparr>success = True, payload = None, errorMessage = None\<rparr>,
                 (store_call (StorageSet CRM_DATA) w)\<lparr>crm_data := Some DEFAULT_STORAGE_STATE\<rparr>)
      | Some e \<Rightarrow> (failure (message_of ''Clear operation failed'' e),
                   store_call (StorageSet CRM_DATA) w))"
  by (simp add: clearAllRecords_def storage_set_crm_def fault_at_0 split: option.splits)

lemma remove_unique:
  "doc_unique (current_doc w) \<Longrightarrow> doc_unique (current_doc (snd (removeRecord et rid w)))"
  by (simp add: removeRecord_eq persistData_eq Let_def doc_unique_set_collection
      doc_unique_collection distinct_map_filter split: option.splits)

lemma clear_unique:
  "doc_unique (current_doc w) \<Longrightarrow> doc_unique (current_doc (snd (clearAllRecords w)))"
  by (simp add: clearAllRecords_eq doc_unique_default split: option.splits)

lemma run_op_unique: "doc_unique (current_doc w) \<Longrightarrow> doc_unique (current_doc (run_op operation w))"
  by (cases operation)
     (simp_all add: insertRecordsWithDeduplication_def loop_unique remove_unique clear_unique)

lemma run_ops_unique: "doc_unique (current_doc w) \<Longrightarrow> doc_unique (current_doc (run_ops ops w))"
  unfolding run_ops_def by (induction ops arbitrary: w) (simp_all add: run_op_unique)

lemma fault_at_nil: "faults w = [] \<Longrightarrow> fault_at n w = None"
  by (simp add: fault_at_def)

lemma acquire_faults_nil: "faults w = [] \<Longrightarrow> faults (snd (acquireSyncLock w)) = []"
  by (simp add: acquireSyncLock_eq Let_def)

lemma insert_succeeds:
  assumes nf: "faults w = []" and free: "\<not> lock_blocks (sync_lock w) (clock w)"
  shows "success (fst (insertRecordsWithDeduplication et new w))"
proof -
  have a: "fst (acquireSyncLock w)"
    using free by (simp add: acquireSyncLock_eq Let_def fault_at_nil [OF nf])
  have f: "faults (snd (acquireSyncLock w)) = []" by (rule acquire_faults_nil [OF nf])
  have "success (fst (critical_section et new (snd (acquireSyncLock w))))"
    by (simp add: critical_section_eq Let_def fault_at_nil [OF f])
  with a show ?thesis
    by (simp add: insertRecordsWithDeduplication_def insertLoop_unfold [of et new 0 w]
        split_beta RETRY_ATTEMPTS_def)
qed

lemma dedup_count_all_known:
  assumes "record_id ` set N \<subseteq> record_id ` set E"
  shows "length (performDeduplication E N) \<le> length E"
proof -
  from assms have "record_id ` set E \<union> record_id ` set N = set (map record_id E)" by auto
  then have "length (performDeduplication E N) = card (set (map record_id E))"
    by (simp add: dedup_length)
  also have "\<dots> \<le> length (map record_id E)" by (rule card_length)
  finally show ?thesis by simp
qed

lemma dedup_length_ge:
  assumes "distinct (map record_id E)"
  shows "length E \<le> length (performDeduplication E N)"
proof -
  have "length E = card (set (map record_id E))"
    using distinct_card [OF assms] by simp
  also have "\<dots> \<le> card (record_id ` set E \<union> record_id ` set N)"
    by (intro card_mono) auto
  finally show ?thesis by (simp add: dedup_length)
qed

lemma lock_blocks_held: "sync_lock w \<noteq> Some 0 \<Longrightarrow> lock_blocks (sync_lock w) (clock w) = lock_held w"
  by (auto simp: lock_blocks_def lock_held_def split: option.splits)

lemma schedule_append [simp]: "schedule (xs @ ys) = schedule xs @ schedule ys"
  by (induction xs rule: schedule.induct) simp_all









section \<open>The properties of the specification\<close>

text \<open>
  C1 (recency wins), as amended: when the existing collection holds exactly one record
  \<open>e\<close> with id \<open>i\<close> and the incoming batch holds exactly one record \<open>n\<close> with id \<open>i\<close>, the
  merged collection holds exactly one record with id \<open>i\<close>: the incoming \<open>n\<close> if its
  \<open>extractedAt\<close> is strictly greater than that of \<open>e\<close>, and the existing \<open>e\<close> otherwise
  (a tie keeps \<open>e\<close>). So \<open>e\<close> is kept iff \<open>t2 \<le> t1\<close>, and \<open>n\<close> (when it differs from \<open>e\<close>)
  is kept iff \<open>t2 > t1\<close>.
\<close>

theorem recency_wins_single:
  assumes E: "filter (\<lambda>r. record_id r = i) existingRecords = [e]"
      and N: "filter (\<lambda>r. record_id r = i) newRecords = [n]"
  shows "filter (\<lambda>r. record_id r = i) (performDeduplication existingRecords newRecords)
           = [if extractedAt n > extractedAt e then n else e]
         \<and> (e \<in> set (performDeduplication existingRecords newRecords)
              \<longleftrightarrow> extractedAt n \<le> extractedAt e)
         \<and> (n \<noteq> e \<longrightarrow>
              (n \<in> set (performDeduplication existingRecords newRecords)
                 \<longleftrightarrow> extractedAt n > extractedAt e))"
proof -
  let ?out = "performDeduplication existingRecords newRecords"
  have f: "filter (\<lambda>r. record_id r = i) ?out = [if extractedAt n > extractedAt e then n else e]"
    by (rule recency_single [OF E N])
  have "e \<in> set (filter (\<lambda>r. record_id r = i) existingRecords)" by (simp add: E)
  then have ide: "record_id e = i" by simp
  have "n \<in> set (filter (\<lambda>r. record_id r = i) newRecords)" by (simp add: N)
  then have idn: "record_id n = i" by simp
  have mem: "\<And>x. record_id x = i \<Longrightarrow>
      (x \<in> set ?out \<longleftrightarrow> x = (if extractedAt n > extractedAt e then n else e))"
  proof -
    fix x assume "record_id x = i"
    then have "x \<in> set ?out \<longleftrightarrow> x \<in> set (filter (\<lambda>r. record_id r = i) ?out)" by simp
    then show "x \<in> set ?out \<longleftrightarrow> x = (if extractedAt n > extractedAt e then n else e)"
      unfolding f by simp
  qed
  from mem [OF ide] mem [OF idn] f show ?thesis by auto
qed

theorem recency_wins_single_witness:
  "filter (\<lambda>r. record_id r = ''a'')
     (performDeduplication [mkContact ''a'' 100 ''X''] [mkContact ''a'' 50 ''Y'', mkContact ''b'' 10 ''Z''])
     = [mkContact ''a'' 100 ''X'']
   \<and> mkContact ''a'' 100 ''X''
       \<in> set (performDeduplication [mkContact ''a'' 100 ''X''] [mkContact ''a'' 50 ''Y'', mkContact ''b'' 10 ''Z''])
   \<and> mkContact ''a'' 50 ''Y''
       \<notin> set (performDeduplication [mkContact ''a'' 100 ''X''] [mkContact ''a'' 50 ''Y'', mkContact ''b'' 10 ''Z''])"
  using recency_wins_single [of "''a''" "[mkContact ''a'' 100 ''X'']" "mkContact ''a'' 100 ''X''"
      "[mkContact ''a'' 50 ''Y'', mkContact ''b'' 10 ''Z'']" "mkContact ''a'' 50 ''Y''"]
  by (simp add: mkContact_def)

text \<open>
  The claim as first stated quantifies over every incoming batch. A batch with two
  records of the same id refutes it: the existing record \<open>X\<close> (\<open>t1 = 100\<close>) and the
  incoming record \<open>Y\<close> (\<open>t2 = 50\<close>) share the id \<open>a\<close> and \<open>t2 \<le> t1\<close>, yet \<open>X\<close> is not kept,
  because the later incoming record \<open>Z\<close> (\<open>extractedAt = 200\<close>) replaces it.
\<close>

theorem recency_wins_counterexample:
  "mkContact ''a'' 100 ''X'' \<in> set [mkContact ''a'' 100 ''X'']
   \<and> mkContact ''a'' 50 ''Y'' \<in> set [mkContact ''a'' 50 ''Y'', mkContact ''a'' 200 ''Z'']
   \<and> record_id (mkContact ''a'' 50 ''Y'') = record_id (mkContact ''a'' 100 ''X'')
   \<and> extractedAt (mkContact ''a'' 50 ''Y'') \<le> extractedAt (mkContact ''a'' 100 ''X'')
   \<and> mkContact ''a'' 100 ''X''
       \<notin> set (performDeduplication [mkContact ''a'' 100 ''X'']
                 [mkContact ''a'' 50 ''Y'', mkContact ''a'' 200 ''Z''])
   \<and> performDeduplication [mkContact ''a'' 100 ''X'']
        [mkContact ''a'' 50 ''Y'', mkContact ''a'' 200 ''Z''] = [mkContact ''a'' 200 ''Z'']"
  by (simp add: performDeduplication_def Map_values_def seed_step_def merge_step_def
        Map_get_def mkContact_def)

text \<open>
  C2 (uniqueness invariant): for every pair of input lists the output of
  \<open>performDeduplication\<close> has no two records with the same id. Consequently the stored
  document keeps the invariant \<open>doc_unique\<close> under every sequence of
  \<open>insertRecordsWithDeduplication\<close>, \<open>removeRecord\<close> and \<open>clearAllRecords\<close> calls, whatever
  the clock, the lock and the store failures are: from any state whose document has
  unique ids, and so from the absent or default empty document.
\<close>

theorem unique_ids_invariant:
  "distinct (map record_id (performDeduplication existingRecords newRecords))
   \<and> doc_unique DEFAULT_STORAGE_STATE
   \<and> (crm_data w = None \<or> crm_data w = Some DEFAULT_STORAGE_STATE \<longrightarrow>
        doc_unique (current_doc (run_ops ops w)))
   \<and> (doc_unique (current_doc w) \<longrightarrow> doc_unique (current_doc (run_ops ops w)))"
proof -
  have start: "doc_unique (current_doc w)"
    if "crm_data w = None \<or> crm_data w = Some DEFAULT_STORAGE_STATE"
    using that by (auto simp: current_doc_def doc_unique_default)
  from start run_ops_unique [of w ops] dedup_distinct_ids doc_unique_default
  show ?thesis by blast
qed

theorem unique_ids_invariant_witness:
  "doc_unique (current_doc (run_ops
      [Insert Contacts [mkContact ''a'' 100 ''X'', mkContact ''a'' 200 ''Y''],
       Remove Contacts ''b'', Insert Deals [mkContact ''a'' 100 ''X''], Clear,
       Insert Contacts [mkContact ''b'' 10 ''Z'']]
      \<lparr>crm_data = None, sync_lock = None, clock = 1700000000000, faults = [], log = []\<rparr>))"
  using unique_ids_invariant [of "[]" "[]"
      "\<lparr>crm_data = None, sync_lock = None, clock = 1700000000000, faults = [], log = []\<rparr>"
      "[Insert Contacts [mkContact ''a'' 100 ''X'', mkContact ''a'' 200 ''Y''],
       Remove Contacts ''b'', Insert Deals [mkContact ''a'' 100 ''X''], Clear,
       Insert Contacts [mkContact ''b'' 10 ''Z'']]"]
  by simp

text \<open>
  C3 (insertion count): whenever \<open>insertRecordsWithDeduplication\<close> reports success, the
  reported count is the size of the merged collection minus the size of the collection
  as stored when the call began, floored at zero; it is \<open>n\<close> for a batch of \<open>n\<close> records
  with pairwise distinct ids inserted into an empty collection, and \<open>0\<close> for a batch all
  of whose ids are already in the collection, whatever their recency. The call does
  report success when no store call fails and no lock blocks the acquisition.
\<close>

theorem insertedCount_correct:
  "(success (fst (insertRecordsWithDeduplication et new w)) \<longrightarrow>
      payload (fst (insertRecordsWithDeduplication et new w)) =
        Some (max 0 (int (length (performDeduplication (collection et (current_doc w)) new))
                     - int (length (collection et (current_doc w)))))
      \<and> (collection et (current_doc w) = [] \<and> distinct (map record_id new) \<longrightarrow>
           payload (fst (insertRecordsWithDeduplication et new w)) = Some (int (length new)))
      \<and> (record_id ` set new \<subseteq> record_id ` set (collection et (current_doc w)) \<longrightarrow>
           payload (fst (insertRecordsWithDeduplication et new w)) = Some 0))
   \<and> (faults w = [] \<and> \<not> lock_blocks (sync_lock w) (clock w) \<longrightarrow>
        success (fst (insertRecordsWithDeduplication et new w)))"
proof -
  let ?E = "collection et (current_doc w)"
  let ?r = "fst (insertRecordsWithDeduplication et new w)"
  have gen: "payload ?r = Some (max 0 (int (length (performDeduplication ?E new)) - int (length ?E)))"
    if "success ?r"
    using that unfolding insertRecordsWithDeduplication_def by (rule loop_payload)
  have fresh: "payload ?r = Some (int (length new))"
    if "success ?r" "?E = []" "distinct (map record_id new)"
    using gen [OF that(1)] that(2,3) by (simp add: dedup_into_empty)
  have known: "payload ?r = Some 0"
    if "success ?r" "record_id ` set new \<subseteq> record_id ` set ?E"
    using gen [OF that(1)] dedup_count_all_known [OF that(2)] by simp
  from gen fresh known insert_succeeds [of w et new] show ?thesis by blast
qed

theorem insertedCount_correct_witness:
  "success (fst (insertRecordsWithDeduplication Contacts
       [mkContact ''a'' 50 ''Y'', mkContact ''b'' 10 ''Z'']
       \<lparr>crm_data = Some \<lparr>contacts = [mkContact ''a'' 100 ''X''], deals = [], tasks = [],
                          lastSync = 0, syncInProgress = False\<rparr>,
         sync_lock = None, clock = 1700000000000, faults = [], log = []\<rparr>))
   \<and> payload (fst (insertRecordsWithDeduplication Contacts
       [mkContact ''a'' 50 ''Y'', mkContact ''b'' 10 ''Z'']
       \<lparr>crm_data = Some \<lparr>contacts = [mkContact ''a'' 100 ''X''], deals = [], tasks = [],
                          lastSync = 0, syncInProgress = False\<rparr>,
         sync_lock = None, clock = 1700000000000, faults = [], log = []\<rparr>)) = Some 1"
proof -
  let ?w = "\<lparr>crm_data = Some \<lparr>contacts = [mkContact ''a'' 100 ''X''], deals = [], tasks = [],
                          lastSync = 0, syncInProgress = False\<rparr>,
         sync_lock = None, clock = 1700000000000, faults = [], log = []\<rparr>"
  let ?new = "[mkContact ''a'' 50 ''Y'', mkContact ''b'' 10 ''Z'']"
  have free: "faults ?w = [] \<and> \<not> lock_blocks (sync_lock ?w) (clock ?w)"
    by (simp add: lock_blocks_def)
  have merged: "performDeduplication [mkContact ''a'' 100 ''X''] ?new
      = [mkContact ''a'' 100 ''X'', mkContact ''b'' 10 ''Z'']"
    by (simp add: performDeduplication_def Map_values_def seed_step_def merge_step_def
        Map_get_def mkContact_def)
  from insertedCount_correct [of Contacts ?new ?w] free merged show ?thesis
    by (simp add: current_doc_def)
qed

text \<open>
  C4 (merge is associative and commutative), as amended: for collections \<open>A\<close>, \<open>B\<close>, \<open>C\<close>
  with unique ids, \<open>merge (merge A B) C\<close> and \<open>merge A (merge B C)\<close> have the same
  id-to-record mapping and the same set of records; and \<open>merge A B\<close> and \<open>merge B A\<close> have
  the same id-to-record mapping and the same set of records whenever no record of \<open>A\<close>
  ties with a different record of \<open>B\<close> (same id, same \<open>extractedAt\<close>).
\<close>

theorem merge_assoc_comm:
  assumes A: "distinct (map record_id A)" and B: "distinct (map record_id B)"
      and C: "distinct (map record_id C)"
  shows "id_map (performDeduplication (performDeduplication A B) C)
           = id_map (performDeduplication A (performDeduplication B C))
         \<and> set (performDeduplication (performDeduplication A B) C)
           = set (performDeduplication A (performDeduplication B C))
         \<and> ((\<forall>a \<in> set A. \<forall>b \<in> set B.
               record_id a = record_id b \<longrightarrow> extractedAt a \<noteq> extractedAt b \<or> a = b)
            \<longrightarrow> id_map (performDeduplication A B) = id_map (performDeduplication B A)
                \<and> set (performDeduplication A B) = set (performDeduplication B A))"
proof -
  have assoc: "id_map (performDeduplication (performDeduplication A B) C)
           = id_map (performDeduplication A (performDeduplication B C))"
    by (rule merge_assoc_map [OF A B C])
  have assoc_set: "set (performDeduplication (performDeduplication A B) C)
           = set (performDeduplication A (performDeduplication B C))"
    by (rule set_eq_of_id_map [OF dedup_distinct_ids dedup_distinct_ids assoc])
  have comm: "id_map (performDeduplication A B) = id_map (performDeduplication B A)
                \<and> set (performDeduplication A B) = set (performDeduplication B A)"
    if noties: "\<forall>a \<in> set A. \<forall>b \<in> set B.
               record_id a = record_id b \<longrightarrow> extractedAt a \<noteq> extractedAt b \<or> a = b"
  proof -
    have m: "id_map (performDeduplication A B) = id_map (performDeduplication B A)"
      by (rule merge_comm_map [OF A B noties])
    from set_eq_of_id_map [OF dedup_distinct_ids dedup_distinct_ids m] m show ?thesis by simp
  qed
  from assoc assoc_set comm show ?thesis by blast
qed

theorem merge_assoc_comm_witness:
  "set (performDeduplication
          (performDeduplication [mkContact ''a'' 100 ''X''] [mkContact ''a'' 50 ''Y'', mkContact ''b'' 10 ''Z''])
          [mkContact ''b'' 20 ''W''])
   = set (performDeduplication [mkContact ''a'' 100 ''X'']
          (performDeduplication [mkContact ''a'' 50 ''Y'', mkContact ''b'' 10 ''Z''] [mkContact ''b'' 20 ''W'']))
   \<and> set (performDeduplication [mkContact ''a'' 100 ''X''] [mkContact ''a'' 50 ''Y'', mkContact ''b'' 10 ''Z''])
   = set (performDeduplication [mkContact ''a'' 50 ''Y'', mkContact ''b'' 10 ''Z''] [mkContact ''a'' 100 ''X''])"
  using merge_assoc_comm [of "[mkContact ''a'' 100 ''X'']"
      "[mkContact ''a'' 50 ''Y'', mkContact ''b'' 10 ''Z'']" "[mkContact ''b'' 20 ''W'']"]
  by (simp add: mkContact_def)

text \<open>
  Commutativity as first stated fails on a tie: two collections with unique ids whose
  records share the id \<open>a\<close> and the \<open>extractedAt\<close> value \<open>100\<close> but differ in their name.
  Each merge keeps the record of its first argument.
\<close>

theorem merge_commutative_counterexample:
  "distinct (map record_id [mkContact ''a'' 100 ''X''])
   \<and> distinct (map record_id [mkContact ''a'' 100 ''Y''])
   \<and> performDeduplication [mkContact ''a'' 100 ''X''] [mkContact ''a'' 100 ''Y'']
       = [mkContact ''a'' 100 ''X'']
   \<and> performDeduplication [mkContact ''a'' 100 ''Y''] [mkContact ''a'' 100 ''X'']
       = [mkContact ''a'' 100 ''Y'']
   \<and> set (performDeduplication [mkContact ''a'' 100 ''X''] [mkContact ''a'' 100 ''Y''])
       \<noteq> set (performDeduplication [mkContact ''a'' 100 ''Y''] [mkContact ''a'' 100 ''X''])"
  by (simp add: performDeduplication_def Map_values_def seed_step_def merge_step_def
        Map_get_def mkContact_def)

text \<open>
  C5 (idempotence of merge): for every existing collection \<open>E\<close> and batch \<open>B\<close>, merging
  \<open>B\<close> a second time into the result of the first merge returns that result unchanged,
  record order included. No assumption on duplicate ids in \<open>E\<close> or \<open>B\<close> is needed.
\<close>

theorem performDeduplication_idempotent:
  "performDeduplication (performDeduplication E B) B = performDeduplication E B"
proof -
  let ?m = "recordMap_of E B"
  have seed: "fold seed_step (map snd ?m) [] = ?m"
    by (rule fold_seed_keyed [OF keyed_recordMap_of])
  have "\<forall>x \<in> set B. covered ?m x"
    by (simp add: recordMap_of_def fold_merge_covered)
  then have "fold merge_step B ?m = ?m"
    by (rule fold_merge_covered_id)
  with seed show ?thesis
    by (simp add: performDeduplication_values recordMap_of_def)
qed

text \<open>
  C6 (lock acquisition), as amended: take a call of \<open>acquireSyncLock\<close> in which the
  document and the lock key are read successfully and the stored lock timestamp is not
  \<open>0\<close>. If a lock timestamp is present whose age is below the timeout of 30000 ms, the
  call returns false, leaves document and lock as they are, and calls no store write.
  Otherwise (timestamp absent or stale) the call tries to write the current time under
  the lock key: if that write is rejected the call returns false and has changed
  nothing; if it succeeds the call returns true with the current time under the lock
  key, and the document is rewritten with \<open>syncInProgress\<close> true when the document write
  succeeds (a rejected document write is ignored). So, when the lock write succeeds,
  the call fails iff a fresh lock timestamp is present; in particular a stale lock is
  acquirable, and nothing depends on the stored \<open>syncInProgress\<close> flag.
\<close>

theorem acquireSyncLock_condition:
  assumes r0: "fault_at 0 w = None" and r1: "fault_at 1 w = None"
      and nz: "sync_lock w \<noteq> Some 0"
  shows "(lock_held w \<longrightarrow>
            \<not> fst (acquireSyncLock w)
            \<and> crm_data (snd (acquireSyncLock w)) = crm_data w
            \<and> sync_lock (snd (acquireSyncLock w)) = sync_lock w
            \<and> log (snd (acquireSyncLock w))
                = log w @ [AcquireCalled, StorageGet CRM_DATA, StorageGet SYNC_LOCK])
         \<and> (\<not> lock_held w \<and> fault_at 2 w \<noteq> None \<longrightarrow>
            \<not> fst (acquireSyncLock w)
            \<and> crm_data (snd (acquireSyncLock w)) = crm_data w
            \<and> sync_lock (snd (acquireSyncLock w)) = sync_lock w)
         \<and> (\<not> lock_held w \<and> fault_at 2 w = None \<longrightarrow>
            fst (acquireSyncLock w)
            \<and> sync_lock (snd (acquireSyncLock w)) = Some (clock w)
            \<and> crm_data (snd (acquireSyncLock w))
                = (if fault_at 3 w = None
                   then Some ((current_doc w)\<lparr>syncInProgress := True\<rparr>)
                   else crm_data w))
         \<and> (fault_at 2 w = None \<longrightarrow> (\<not> fst (acquireSyncLock w) \<longleftrightarrow> lock_held w))"
  using r0 r1 lock_blocks_held [OF nz]
  by (simp add: acquireSyncLock_eq Let_def)

theorem acquireSyncLock_condition_witness:
  "fst (acquireSyncLock
      \<lparr>crm_data = None, sync_lock = Some 1699999980000, clock = 1700000010000, faults = [], log = []\<rparr>)
   \<and> sync_lock (snd (acquireSyncLock
      \<lparr>crm_data = None, sync_lock = Some 1699999980000, clock = 1700000010000, faults = [], log = []\<rparr>))
      = Some 1700000010000
   \<and> crm_data (snd (acquireSyncLock
      \<lparr>crm_data = None, sync_lock = Some 1699999980000, clock = 1700000010000, faults = [], log = []\<rparr>))
      = Some \<lparr>contacts = [], deals = [], tasks = [], lastSync = 0, syncInProgress = True\<rparr>
   \<and> \<not> fst (acquireSyncLock
      \<lparr>crm_data = Some \<lparr>contacts = [], deals = [], tasks = [], lastSync = 0, syncInProgress = True\<rparr>,
        sync_lock = Some 1700000010000, clock = 1700000015000, faults = [], log = []\<rparr>)"
  using acquireSyncLock_condition
    [of "\<lparr>crm_data = None, sync_lock = Some 1699999980000, clock = 1700000010000, faults = [], log = []\<rparr>"]
    acquireSyncLock_condition
    [of "\<lparr>crm_data = Some \<lparr>contacts = [], deals = [], tasks = [], lastSync = 0, syncInProgress = True\<rparr>,
        sync_lock = Some 1700000010000, clock = 1700000015000, faults = [], log = []\<rparr>"]
  by (simp add: fault_at_def lock_held_def lockTimeout_def current_doc_def DEFAULT_STORAGE_STATE_def)

text \<open>
  The claim as first stated fails when the write of the lock key is rejected: document
  and lock key are read, no lock timestamp is present, and yet the call returns false
  (the \<open>catch\<close> of \<open>acquireSyncLock\<close>) with nothing written.
\<close>

theorem acquireSyncLock_counterexample:
  "fault_at 0 \<lparr>crm_data = None, sync_lock = None, clock = 1700000000000,
               faults = [None, None, Some (Error ''QUOTA_BYTES quota exceeded'')], log = []\<rparr> = None
   \<and> fault_at 1 \<lparr>crm_data = None, sync_lock = None, clock = 1700000000000,
               faults = [None, None, Some (Error ''QUOTA_BYTES quota exceeded'')], log = []\<rparr> = None
   \<and> \<not> lock_held \<lparr>crm_data = None, sync_lock = None, clock = 1700000000000,
               faults = [None, None, Some (Error ''QUOTA_BYTES quota exceeded'')], log = []\<rparr>
   \<and> \<not> fst (acquireSyncLock \<lparr>crm_data = None, sync_lock = None, clock = 1700000000000,
               faults = [None, None, Some (Error ''QUOTA_BYTES quota exceeded'')], log = []\<rparr>)
   \<and> sync_lock (snd (acquireSyncLock \<lparr>crm_data = None, sync_lock = None, clock = 1700000000000,
               faults = [None, None, Some (Error ''QUOTA_BYTES quota exceeded'')], log = []\<rparr>)) = None
   \<and> crm_data (snd (acquireSyncLock \<lparr>crm_data = None, sync_lock = None, clock = 1700000000000,
               faults = [None, None, Some (Error ''QUOTA_BYTES quota exceeded'')], log = []\<rparr>)) = None"
  by (simp add: fault_at_def lock_held_def acquireSyncLock_def retrieveAllData_def
      storage_get_crm_def storage_get_lock_def storage_set_lock_def next_fault_def
      store_call_def emit_def lock_blocks_def)



text \<open>
  C8 (delete of a missing id): when the collection holds no record with the given id,
  \<open>removeRecord\<close> returns a failure result, calls no store write (its only store call is
  the read of the document) and leaves document and lock unchanged; when the read of
  the document succeeds, the failure carries the message ``Record not found''.
\<close>

theorem removeRecord_missing_id:
  assumes "recordId \<notin> record_id ` set (collection entityType (current_doc w))"
  shows "\<not> success (fst (removeRecord entityType recordId w))
         \<and> crm_data (snd (removeRecord entityType recordId w)) = crm_data w
         \<and> sync_lock (snd (removeRecord entityType recordId w)) = sync_lock w
         \<and> log (snd (removeRecord entityType recordId w)) = log w @ [StorageGet CRM_DATA]
         \<and> (fault_at 0 w = None \<longrightarrow>
              fst (removeRecord entityType recordId w)
                = \<lparr>success = False, payload = None, errorMessage = Some ''Record not found''\<rparr>)"
  using assms by (simp add: removeRecord_eq Let_def failure_def split: option.splits)

theorem removeRecord_missing_id_witness:
  "fst (removeRecord Contacts ''missing-id''
      \<lparr>crm_data = Some \<lparr>contacts = [mkContact ''a'' 100 ''X''], deals = [], tasks = [],
                         lastSync = 0, syncInProgress = False\<rparr>,
        sync_lock = None, clock = 1700000000000, faults = [], log = []\<rparr>)
     = \<lparr>success = False, payload = None, errorMessage = Some ''Record not found''\<rparr>
   \<and> crm_data (snd (removeRecord Contacts ''missing-id''
      \<lparr>crm_data = Some \<lparr>contacts = [mkContact ''a'' 100 ''X''], deals = [], tasks = [],
                         lastSync = 0, syncInProgress = False\<rparr>,
        sync_lock = None, clock = 1700000000000, faults = [], log = []\<rparr>))
     = Some \<lparr>contacts = [mkContact ''a'' 100 ''X''], deals = [], tasks = [],
                         lastSync = 0, syncInProgress = False\<rparr>"
  using removeRecord_missing_id [of "''missing-id''" Contacts
      "\<lparr>crm_data = Some \<lparr>contacts = [mkContact ''a'' 100 ''X''], deals = [], tasks = [],
                         lastSync = 0, syncInProgress = False\<rparr>,
        sync_lock = None, clock = 1700000000000, faults = [], log = []\<rparr>"]
  by (simp add: current_doc_def fault_at_def mkContact_def)

text \<open>
  C9 (get-or-default): when the read of the store succeeds and no document is stored,
  \<open>retrieveAllData\<close> returns a success result whose payload is the default document
  (empty contacts, deals and tasks, \<open>lastSync\<close> 0, \<open>syncInProgress\<close> false), and stores
  nothing.
\<close>

theorem retrieveAllData_absent_default:
  assumes "crm_data w = None" and "fault_at 0 w = None"
  shows "fst (retrieveAllData w)
           = \<lparr>success = True, payload = Some DEFAULT_STORAGE_STATE, errorMessage = None\<rparr>
         \<and> DEFAULT_STORAGE_STATE
           = \<lparr>contacts = [], deals = [], tasks = [], lastSync = 0, syncInProgress = False\<rparr>
         \<and> crm_data (snd (retrieveAllData w)) = None"
  using assms by (simp add: retrieveAllData_eq current_doc_def DEFAULT_STORAGE_STATE_def)

theorem retrieveAllData_absent_default_witness:
  "fst (retrieveAllData \<lparr>crm_data = None, sync_lock = None, clock = 1700000000000, faults = [], log = []\<rparr>)
     = \<lparr>success = True,
        payload = Some \<lparr>contacts = [], deals = [], tasks = [], lastSync = 0, syncInProgress = False\<rparr>,
        errorMessage = None\<rparr>"
  using retrieveAllData_absent_default
    [of "\<lparr>crm_data = None, sync_lock = None, clock = 1700000000000, faults = [], log = []\<rparr>"]
  by (simp add: fault_at_def)

text \<open>
  C10 (merge never shrinks a collection): for all input lists, every id of the existing
  collection occurs in the output of \<open>performDeduplication\<close>, and the output is at least
  as long as the number of distinct ids of the existing collection. For an existing
  collection with unique ids, merging the empty batch returns it unchanged and the
  output of any merge is at least as long as the collection. So, on a stored document
  that keeps the uniqueness invariant, the count computed by a successful
  \<open>insertRecordsWithDeduplication\<close> is not negative and is reported as it is: the floor
  at zero does not take effect.
\<close>

theorem merge_never_shrinks:
  "record_id ` set E \<subseteq> record_id ` set (performDeduplication E N)
   \<and> card (record_id ` set E) \<le> length (performDeduplication E N)
   \<and> (distinct (map record_id E) \<longrightarrow>
        performDeduplication E [] = E \<and> length E \<le> length (performDeduplication E N))
   \<and> (doc_unique (current_doc w) \<and> success (fst (insertRecordsWithDeduplication et N w)) \<longrightarrow>
        0 \<le> int (length (performDeduplication (collection et (current_doc w)) N))
              - int (length (collection et (current_doc w)))
        \<and> payload (fst (insertRecordsWithDeduplication et N w))
            = Some (int (length (performDeduplication (collection et (current_doc w)) N))
                    - int (length (collection et (current_doc w)))))"
proof -
  have ids: "record_id ` set E \<subseteq> record_id ` set (performDeduplication E N)"
    by (simp add: dedup_ids)
  have "card (record_id ` set E) \<le> card (record_id ` set E \<union> record_id ` set N)"
    by (intro card_mono) auto
  then have len: "card (record_id ` set E) \<le> length (performDeduplication E N)"
    by (simp add: dedup_length)
  have uniq: "performDeduplication E [] = E \<and> length E \<le> length (performDeduplication E N)"
    if "distinct (map record_id E)"
    using that by (simp add: dedup_empty_batch dedup_length_ge)
  let ?E = "collection et (current_doc w)"
  have cnt: "0 \<le> int (length (performDeduplication ?E N)) - int (length ?E)
        \<and> payload (fst (insertRecordsWithDeduplication et N w))
            = Some (int (length (performDeduplication ?E N)) - int (length ?E))"
    if u: "doc_unique (current_doc w)" and s: "success (fst (insertRecordsWithDeduplication et N w))"
  proof -
    have "length ?E \<le> length (performDeduplication ?E N)"
      by (rule dedup_length_ge [OF doc_unique_collection [OF u]])
    moreover have "payload (fst (insertRecordsWithDeduplication et N w))
        = Some (max 0 (int (length (performDeduplication ?E N)) - int (length ?E)))"
      using s unfolding insertRecordsWithDeduplication_def by (rule loop_payload)
    ultimately show ?thesis by simp
  qed
  from ids len uniq cnt show ?thesis by blast
qed

theorem merge_never_shrinks_witness:
  "performDeduplication [mkContact ''a'' 100 ''X'', mkContact ''b'' 10 ''Z''] []
     = [mkContact ''a'' 100 ''X'', mkContact ''b'' 10 ''Z'']
   \<and> length [mkContact ''a'' 100 ''X'', mkContact ''b'' 10 ''Z'']
       \<le> length (performDeduplication [mkContact ''a'' 100 ''X'', mkContact ''b'' 10 ''Z'']
                    [mkContact ''a'' 50 ''Y''])
   \<and> payload (fst (insertRecordsWithDeduplication Contacts [mkContact ''a'' 50 ''Y'']
       \<lparr>crm_data = Some \<lparr>contacts = [mkContact ''a'' 100 ''X'', mkContact ''b'' 10 ''Z''],
                          deals = [], tasks = [], lastSync = 0, syncInProgress = False\<rparr>,
         sync_lock = None, clock = 1700000000000, faults = [], log = []\<rparr>)) = Some 0"
proof -
  let ?E = "[mkContact ''a'' 100 ''X'', mkContact ''b'' 10 ''Z'']"
  let ?w = "\<lparr>crm_data = Some \<lparr>contacts = ?E, deals = [], tasks = [], lastSync = 0,
                               syncInProgress = False\<rparr>,
         sync_lock = None, clock = 1700000000000, faults = [], log = []\<rparr>"
  have d: "distinct (map record_id ?E)" by (simp add: mkContact_def)
  have u: "doc_unique (current_doc ?w)" by (simp add: current_doc_def doc_unique_def mkContact_def)
  have s: "success (fst (insertRecordsWithDeduplication Contacts [mkContact ''a'' 50 ''Y''] ?w))"
    by (rule insert_succeeds) (simp_all add: lock_blocks_def)
  have merged: "performDeduplication ?E [mkContact ''a'' 50 ''Y''] = ?E"
    by (simp add: performDeduplication_def Map_values_def seed_step_def merge_step_def
        Map_get_def mkContact_def)
  from merge_never_shrinks [of ?E "[mkContact ''a'' 50 ''Y'']" ?w Contacts] d u s merged
  show ?thesis by (simp add: current_doc_def)
qed

end
